theory Spec2Isabelle
  imports Main
begin

section \<open>Text\<close>

text \<open>
  The script build.py works on Python \<open>str\<close> values. They are modelled as
  \<^typ>\<open>string\<close>, lists of characters with code points 0 to 255. In that range the
  decimal digits recognised by \<open>\d\<close> and by \<open>int()\<close> are exactly \<open>0\<close> to
  \<open>9\<close>, and the white space that \<open>int()\<close> skips around a number is the
  set given by \<open>is_space\<close> below (tab to carriage return, space, NEL and the
  no-break space).
\<close>

definition newline :: char where
  "newline = char_of (10::nat)"

definition is_digit :: "char \<Rightarrow> bool" where
  "is_digit c \<longleftrightarrow> (48::nat) \<le> of_char c \<and> of_char c \<le> (57::nat)"

definition digit_value :: "char \<Rightarrow> int" where
  "digit_value c = int (of_char c) - 48"

definition in_range :: "char \<Rightarrow> char \<Rightarrow> char \<Rightarrow> bool" where
  "in_range lo hi c \<longleftrightarrow> (of_char lo :: nat) \<le> of_char c \<and> (of_char c :: nat) \<le> of_char hi"

definition is_space :: "char \<Rightarrow> bool" where
  "is_space c \<longleftrightarrow>
     (let n = (of_char c :: nat)
      in (9 \<le> n \<and> n \<le> 13) \<or> n = 32 \<or> n = 133 \<or> n = 160)"

section \<open>The regular expression of \<open>SemVersion.is_valid\<close>\<close>

text \<open>
  \<open>is_valid\<close> calls \<open>re.match\<close> with the pattern
  \<^verbatim>\<open>^(0|[1-9]\d*)\.(0|[1-9]\d*)\.(0|[1-9]\d*)$\<close>
  and asks whether the result is \<open>None\<close>. The constructs of that pattern are the
  constructors of \<open>regex\<close>; groups only capture and are left out.
\<close>

datatype regex =
    Bol
  | Eol
  | Lit char
  | Digit
  | Range char char
  | Seq regex regex
  | Alt regex regex
  | Star regex

text \<open>
  A matcher state is the number of characters consumed and the rest of the
  subject. \<open>^\<close> matches at position 0 only; \<open>$\<close> (no MULTILINE flag) matches
  at the end of the subject and also just before a newline that ends it. A
  repetition takes the empty iteration or one that consumes at least one character,
  so it runs at most as many times as characters are left.
\<close>

type_synonym mstate = "nat \<times> string"

primrec star_iter :: "(mstate \<Rightarrow> mstate list) \<Rightarrow> nat \<Rightarrow> mstate \<Rightarrow> mstate list" where
  "star_iter f 0 st = [st]"
| "star_iter f (Suc n) st =
     st # concat (map (star_iter f n) (filter (\<lambda>st'. length (snd st') < length (snd st)) (f st)))"

primrec step :: "regex \<Rightarrow> mstate \<Rightarrow> mstate list" where
  "step Bol = (\<lambda>st. if fst st = 0 then [st] else [])"
| "step Eol = (\<lambda>st. if snd st = [] \<or> snd st = [newline] then [st] else [])"
| "step (Lit c) = (\<lambda>st. case snd st of [] \<Rightarrow> [] | x # xs \<Rightarrow> if x = c then [(Suc (fst st), xs)] else [])"
| "step Digit = (\<lambda>st. case snd st of [] \<Rightarrow> [] | x # xs \<Rightarrow> if is_digit x then [(Suc (fst st), xs)] else [])"
| "step (Range lo hi) =
     (\<lambda>st. case snd st of [] \<Rightarrow> [] | x # xs \<Rightarrow> if in_range lo hi x then [(Suc (fst st), xs)] else [])"
| "step (Seq r1 r2) = (\<lambda>st. concat (map (step r2) (step r1 st)))"
| "step (Alt r1 r2) = (\<lambda>st. step r1 st @ step r2 st)"
| "step (Star r) = (\<lambda>st. star_iter (step r) (length (snd st)) st)"

definition re_match :: "regex \<Rightarrow> string \<Rightarrow> bool" where
  "re_match r s \<longleftrightarrow> step r (0, s) \<noteq> []"

definition component :: regex where
  "component = Alt (Lit CHR ''0'') (Seq (Range CHR ''1'' CHR ''9'') (Star Digit))"

definition semver_pattern :: regex where
  "semver_pattern =
     Seq Bol (Seq component (Seq (Lit CHR ''.'') (Seq component (Seq (Lit CHR ''.'')
       (Seq component Eol)))))"

section \<open>Failures\<close>

text \<open>
  Every failure of the script ends the run: \<open>print(...)\<close> followed by
  \<open>exit(1)\<close>, or an exception that nothing catches. Each one is a value of
  \<open>error\<close>, named after the diagnostic that is printed:
  \<^item> \<open>ArgparseError\<close>: \<open>parse_args\<close> rejects the command line;
  \<^item> \<open>InvalidVersionArg\<close>: "invalid arg value for `version`, ...";
  \<^item> \<open>PathNotFound\<close>: "for ... not found in path ..." of \<open>_get_rel_file_path\<close>;
  \<^item> \<open>InvalidVersionTxtFormat\<close>: "invalid version.txt format";
  \<^item> \<open>InvalidVersionTxtSemver\<close>: "invalid version.txt sem-ver specified";
  \<^item> \<open>InvalidTagSemver\<close>: "invalid sem-ver specified as cli -t or --tag argument";
  \<^item> \<open>InvalidSemverFormat\<close>: "invalid sem-ver format";
  \<^item> \<open>MatchingVersions\<close>: "current and new sem-versions are matching";
  \<^item> \<open>InvalidPatchChange\<close>, \<open>InvalidMinorChange\<close>, \<open>InvalidMajorChange\<close>:
    "invalid patch sem-ver change" and its two siblings;
  \<^item> \<open>InvalidVersionIncrease\<close>: "invalid version increase from ... to ...";
  \<^item> \<open>ValueError\<close>: raised by \<open>int()\<close>;
  \<^item> \<open>ImportError\<close>: the dotenv package is missing;
  \<^item> \<open>CredsNotSpecified\<close>: "dockerhub credentials not specified";
  \<^item> \<open>LoginFailed\<close>: "failed to login to dockerhub";
  \<^item> \<open>BuildFailed\<close>: "failed to build image", printed by \<open>Terminal.build\<close>;
  \<^item> \<open>CalledProcessError\<close>: raised by \<open>subprocess.run(..., check=True)\<close>;
  \<^item> \<open>PushFailed\<close>: "failed to build image", printed by \<open>Terminal.push\<close>.
\<close>

datatype error =
    ArgparseError
  | InvalidVersionArg
  | PathNotFound string
  | InvalidVersionTxtFormat
  | InvalidVersionTxtSemver
  | InvalidTagSemver
  | InvalidSemverFormat
  | MatchingVersions
  | InvalidPatchChange
  | InvalidMinorChange
  | InvalidMajorChange
  | InvalidVersionIncrease
  | ValueError
  | ImportError
  | CredsNotSpecified
  | LoginFailed
  | BuildFailed
  | CalledProcessError
  | PushFailed

section \<open>Built-in operations on text\<close>

text \<open>\<open>str.split(sep)\<close> for a separator of one character.\<close>

fun py_split :: "char \<Rightarrow> string \<Rightarrow> string list" where
  "py_split sep [] = [[]]"
| "py_split sep (x # xs) =
     (if x = sep then [] # py_split sep xs
      else (case py_split sep xs of [] \<Rightarrow> [[x]] | y # ys \<Rightarrow> (x # y) # ys))"

text \<open>
  \<open>int(s)\<close> for a string: white space around the number is skipped, one sign is
  allowed, and the digits may be grouped by single underscores between digits.
  Anything else raises \<open>ValueError\<close>. Python integers are unbounded, but
  CPython refuses to convert a string with too many digits: it counts the digit
  characters (not the sign, the underscores or the white space) and raises
  \<open>ValueError\<close> when there are more than \<open>sys.get_int_max_str_digits()\<close>,
  which is 4300 unless the interpreter is told otherwise. The script leaves that
  default alone.
\<close>

definition int_max_str_digits :: nat where
  "int_max_str_digits = 4300"

definition strip :: "string \<Rightarrow> string" where
  "strip s = rev (dropWhile is_space (rev (dropWhile is_space s)))"

fun int_digits :: "int \<Rightarrow> string \<Rightarrow> int option" where
  "int_digits acc [] = Some acc"
| "int_digits acc (c # cs) =
     (if is_digit c then int_digits (10 * acc + digit_value c) cs
      else if c = CHR ''_'' \<and> cs \<noteq> [] \<and> is_digit (hd cs) then int_digits acc cs
      else None)"

definition int_unsigned :: "string \<Rightarrow> int option" where
  "int_unsigned s =
     (case s of
        [] \<Rightarrow> None
      | c # cs \<Rightarrow>
          if is_digit c then
            (if int_max_str_digits < length (filter is_digit s) then None else int_digits 0 s)
          else None)"

definition py_int :: "string \<Rightarrow> error + int" where
  "py_int s =
     (case strip s of
        [] \<Rightarrow> Inl ValueError
      | c # cs \<Rightarrow>
          if c = CHR ''-'' then
            (case int_unsigned cs of None \<Rightarrow> Inl ValueError | Some n \<Rightarrow> Inr (- n))
          else if c = CHR ''+'' then
            (case int_unsigned cs of None \<Rightarrow> Inl ValueError | Some n \<Rightarrow> Inr n)
          else
            (case int_unsigned (c # cs) of None \<Rightarrow> Inl ValueError | Some n \<Rightarrow> Inr n))"

section \<open>\<open>CmdArgs\<close> and \<open>SemVersion\<close>\<close>

record CmdArgs =
  tag :: string
  version :: string

record SemVersion =
  raw :: string

definition is_valid :: "SemVersion \<Rightarrow> bool" where
  "is_valid v \<longleftrightarrow> re_match semver_pattern (raw v)"

text \<open>
  \<open>parse\<close> splits at the dots, exits unless there are three parts, and converts
  each part with \<open>int\<close>, left to right.
\<close>

definition parse :: "SemVersion \<Rightarrow> error + (int \<times> int \<times> int)" where
  "parse v =
     (let parsed = py_split CHR ''.'' (raw v)
      in if length parsed \<noteq> 3 then Inl InvalidSemverFormat
         else (case py_int (parsed ! 0) of Inl e \<Rightarrow> Inl e | Inr a \<Rightarrow>
              (case py_int (parsed ! 1) of Inl e \<Rightarrow> Inl e | Inr b \<Rightarrow>
              (case py_int (parsed ! 2) of Inl e \<Rightarrow> Inl e | Inr c \<Rightarrow> Inr (a, b, c)))))"

text \<open>
  \<open>validate_semver_change\<close>: the three \<open>if\<close> statements on \<open>args.version\<close>
  run one after the other, each able to exit and each updating the pair
  \<open>(cold, cnew)\<close>, which starts as \<open>(0, 0)\<close>. The patch branch tests
  \<open>cmin == cmin\<close>, as the source does.
\<close>

definition patch_branch ::
  "string \<Rightarrow> int \<times> int \<times> int \<Rightarrow> int \<times> int \<times> int \<Rightarrow> int \<times> int \<Rightarrow> error + (int \<times> int)" where
  "patch_branch ver c n oldnew =
     (case c of (cmaj, cmin, cpatch) \<Rightarrow> case n of (nmaj, nmin, npatch) \<Rightarrow>
        if ver = ''patch'' then
          (if \<not> (cmaj = nmaj \<and> cmin = cmin) then Inl InvalidPatchChange
           else Inr (cpatch, npatch))
        else Inr oldnew)"

definition minor_branch ::
  "string \<Rightarrow> int \<times> int \<times> int \<Rightarrow> int \<times> int \<times> int \<Rightarrow> int \<times> int \<Rightarrow> error + (int \<times> int)" where
  "minor_branch ver c n oldnew =
     (case c of (cmaj, cmin, cpatch) \<Rightarrow> case n of (nmaj, nmin, npatch) \<Rightarrow>
        if ver = ''minor'' then
          (if \<not> (cmaj = nmaj \<and> npatch = 0) then Inl InvalidMinorChange
           else Inr (cmin, nmin))
        else Inr oldnew)"

definition major_branch ::
  "string \<Rightarrow> int \<times> int \<times> int \<Rightarrow> int \<times> int \<times> int \<Rightarrow> int \<times> int \<Rightarrow> error + (int \<times> int)" where
  "major_branch ver c n oldnew =
     (case c of (cmaj, cmin, cpatch) \<Rightarrow> case n of (nmaj, nmin, npatch) \<Rightarrow>
        if ver = ''major'' then
          (if \<not> (cmin = 0 \<and> npatch = 0) then Inl InvalidMajorChange
           else Inr (cmaj, nmaj))
        else Inr oldnew)"

definition validate_semver_change :: "SemVersion \<Rightarrow> SemVersion \<Rightarrow> CmdArgs \<Rightarrow> error + unit" where
  "validate_semver_change current_version new_version args =
     (if raw current_version = raw new_version then Inl MatchingVersions
      else
        (case parse current_version of Inl e \<Rightarrow> Inl e | Inr c \<Rightarrow>
        (case parse new_version of Inl e \<Rightarrow> Inl e | Inr n \<Rightarrow>
        (case patch_branch (version args) c n (0, 0) of Inl e \<Rightarrow> Inl e | Inr on1 \<Rightarrow>
        (case minor_branch (version args) c n on1 of Inl e \<Rightarrow> Inl e | Inr on2 \<Rightarrow>
        (case major_branch (version args) c n on2 of Inl e \<Rightarrow> Inl e | Inr (cold, cnew) \<Rightarrow>
           if \<not> (cold + 1 = cnew) then Inl InvalidVersionIncrease else Inr ()))))))"

section \<open>The version file\<close>

text \<open>
  \<open>version.txt\<close> is the only state the script changes. It is modelled as
  \<open>string option\<close>: \<open>None\<close> when the path does not exist, otherwise the text that
  reading the file gives. \<open>readlines\<close> cuts the text after each newline and
  keeps the newline in the line.
\<close>

type_synonym version_file = "string option"

fun readlines :: "string \<Rightarrow> string list" where
  "readlines [] = []"
| "readlines (c # cs) =
     (if c = newline then [c] # readlines cs
      else (case readlines cs of [] \<Rightarrow> [[c]] | l # ls \<Rightarrow> (c # l) # ls))"

definition get_rel_file_path :: "bool \<Rightarrow> string \<Rightarrow> error + unit" where
  "get_rel_file_path path_exists ffor = (if \<not> path_exists then Inl (PathNotFound ffor) else Inr ())"

definition semver_file :: "version_file \<Rightarrow> error + unit" where
  "semver_file f = get_rel_file_path (f \<noteq> None) ''sem-ver''"

definition get_current_sem_ver :: "version_file \<Rightarrow> error + SemVersion" where
  "get_current_sem_ver f =
     (case semver_file f of Inl e \<Rightarrow> Inl e | Inr _ \<Rightarrow>
        (let lines = readlines (the f)
         in if length lines \<noteq> 1 then Inl InvalidVersionTxtFormat
            else Inr \<lparr>raw = lines ! 0\<rparr>))"

definition overwrite_version :: "SemVersion \<Rightarrow> version_file \<Rightarrow> (error + unit) \<times> version_file" where
  "overwrite_version new_version f =
     (if \<not> is_valid new_version then (Inl InvalidSemverFormat, f)
      else (case semver_file f of Inl e \<Rightarrow> (Inl e, f) | Inr _ \<Rightarrow> (Inr (), Some (raw new_version))))"

section \<open>The run\<close>

text \<open>
  Everything \<open>main\<close> reads from outside is a field of \<open>world\<close>: the result of
  \<open>parse_args\<close> (\<open>None\<close> when argparse rejects the command line), the version
  file, which of the other paths exist, whether the dotenv package can be
  imported, the two environment variables as \<open>os.getenv\<close> returns them after
  \<open>load_dotenv\<close>, and the return code of each docker command. The docker
  commands do not touch the version file.
\<close>

record DockerhubCreds =
  id_creds :: string
  password :: string

record world =
  parsed_args :: "(string \<times> string) option"
  version_txt :: version_file
  dotenv_exists :: bool
  dotenv_importable :: bool
  DOCKERHUB_ID :: "string option"
  DOCKERHUB_PW :: "string option"
  dockerfile_exists :: bool
  project_root_exists :: bool
  login_returncode :: int
  build_returncode :: int
  image_ls_returncode :: int
  push_returncode :: int

definition get_cmd_args :: "world \<Rightarrow> error + CmdArgs" where
  "get_cmd_args w =
     (case parsed_args w of
        None \<Rightarrow> Inl ArgparseError
      | Some (t, v) \<Rightarrow>
          if v \<notin> set [''major'', ''minor'', ''patch''] then Inl InvalidVersionArg
          else Inr \<lparr>tag = t, version = v\<rparr>)"

definition load_dotenv :: "world \<Rightarrow> error + unit" where
  "load_dotenv w =
     (case get_rel_file_path (dotenv_exists w) ''dot-env'' of Inl e \<Rightarrow> Inl e | Inr _ \<Rightarrow>
        if \<not> dotenv_importable w then Inl ImportError else Inr ())"

definition get_dockerhub_creds :: "world \<Rightarrow> error + DockerhubCreds" where
  "get_dockerhub_creds w =
     (if DOCKERHUB_ID w = None \<or> DOCKERHUB_PW w = None then Inl CredsNotSpecified
      else Inr \<lparr>id_creds = the (DOCKERHUB_ID w), password = the (DOCKERHUB_PW w)\<rparr>)"

definition image_name :: string where
  "image_name = ''dock-img''"

definition get_full_image_name :: "DockerhubCreds \<Rightarrow> CmdArgs \<Rightarrow> string" where
  "get_full_image_name creds args = id_creds creds @ ''/'' @ image_name @ '':'' @ tag args"

definition login :: "world \<Rightarrow> DockerhubCreds \<Rightarrow> error + unit" where
  "login w creds = (if login_returncode w \<noteq> 0 then Inl LoginFailed else Inr ())"

definition build :: "world \<Rightarrow> DockerhubCreds \<Rightarrow> CmdArgs \<Rightarrow> error + unit" where
  "build w creds args =
     (case get_rel_file_path (dockerfile_exists w) ''dockerfile path'' of Inl e \<Rightarrow> Inl e | Inr _ \<Rightarrow>
     (case get_rel_file_path (project_root_exists w) ''project root'' of Inl e \<Rightarrow> Inl e | Inr _ \<Rightarrow>
        if build_returncode w \<noteq> 0 then Inl BuildFailed else Inr ()))"

definition show_image :: "world \<Rightarrow> error + unit" where
  "show_image w = (if image_ls_returncode w \<noteq> 0 then Inl CalledProcessError else Inr ())"

definition push :: "world \<Rightarrow> DockerhubCreds \<Rightarrow> CmdArgs \<Rightarrow> error + unit" where
  "push w creds args = (if push_returncode w \<noteq> 0 then Inl PushFailed else Inr ())"

text \<open>\<open>main\<close> returns how the run ended and the version file it leaves behind.\<close>

definition main :: "world \<Rightarrow> (error + unit) \<times> version_file" where
  "main w =
     (let f = version_txt w in
      case get_cmd_args w of Inl e \<Rightarrow> (Inl e, f) | Inr args \<Rightarrow>
      case get_current_sem_ver f of Inl e \<Rightarrow> (Inl e, f) | Inr current_version \<Rightarrow>
      if \<not> is_valid current_version then (Inl InvalidVersionTxtSemver, f) else
      let new_version = \<lparr>raw = tag args\<rparr> in
      if \<not> is_valid new_version then (Inl InvalidTagSemver, f) else
      case validate_semver_change current_version new_version args of Inl e \<Rightarrow> (Inl e, f) | Inr _ \<Rightarrow>
      case load_dotenv w of Inl e \<Rightarrow> (Inl e, f) | Inr _ \<Rightarrow>
      case get_dockerhub_creds w of Inl e \<Rightarrow> (Inl e, f) | Inr dockerhub_creds \<Rightarrow>
      case login w dockerhub_creds of Inl e \<Rightarrow> (Inl e, f) | Inr _ \<Rightarrow>
      case build w dockerhub_creds args of Inl e \<Rightarrow> (Inl e, f) | Inr _ \<Rightarrow>
      case show_image w of Inl e \<Rightarrow> (Inl e, f) | Inr _ \<Rightarrow>
      case push w dockerhub_creds args of Inl e \<Rightarrow> (Inl e, f) | Inr _ \<Rightarrow>
      overwrite_version new_version f)"

section \<open>The documented format, in words\<close>

text \<open>
  The documentation describes a version as three components separated by dots, each
  component either \<open>0\<close> or a sequence of digits that starts with a non-zero digit,
  and nothing else in the text. \<open>spec_semver\<close> says so without the regular
  expression; it is the yardstick for \<open>is_valid\<close>. \<open>decimal\<close> writes a natural
  number in base ten, \<open>decimal_value\<close> reads a sequence of digits in base ten, and
  \<open>render\<close> writes a version.
\<close>

definition spec_component :: "string \<Rightarrow> bool" where
  "spec_component c =
     (case c of
        [] \<Rightarrow> False
      | x # xs \<Rightarrow> (x = CHR ''0'' \<and> xs = []) \<or> (in_range CHR ''1'' CHR ''9'' x \<and> list_all is_digit xs))"

definition spec_semver :: "string \<Rightarrow> bool" where
  "spec_semver s =
     (case py_split CHR ''.'' s of
        [a, b, c] \<Rightarrow> spec_component a \<and> spec_component b \<and> spec_component c
      | _ \<Rightarrow> False)"

definition digit_char :: "nat \<Rightarrow> char" where
  "digit_char d = char_of (48 + d)"

fun decimal :: "nat \<Rightarrow> string" where
  "decimal n = (if n < 10 then [digit_char n] else decimal (n div 10) @ [digit_char (n mod 10)])"

definition decimal_value :: "string \<Rightarrow> int" where
  "decimal_value w = foldl (\<lambda>a c. 10 * a + digit_value c) 0 w"

definition render :: "nat \<Rightarrow> nat \<Rightarrow> nat \<Rightarrow> string" where
  "render a b c = decimal a @ ''.'' @ decimal b @ ''.'' @ decimal c"

section \<open>The transition rules of \<open>validate_semver_change\<close>\<close>

text \<open>
  What \<open>validate_semver_change\<close> returns for each value of \<open>args.version\<close>, once
  both versions have been parsed.
\<close>

lemma validate_patch:
  assumes "parse cur = Inr (cmaj, cmin, cpatch)" and "parse new = Inr (nmaj, nmin, npatch)"
    and "version args = ''patch''"
  shows "validate_semver_change cur new args =
           (if raw cur = raw new then Inl MatchingVersions
            else if cmaj \<noteq> nmaj then Inl InvalidPatchChange
            else if cpatch + 1 = npatch then Inr () else Inl InvalidVersionIncrease)"
  using assms
  by (simp add: validate_semver_change_def patch_branch_def minor_branch_def major_branch_def)

lemma validate_minor:
  assumes "parse cur = Inr (cmaj, cmin, cpatch)" and "parse new = Inr (nmaj, nmin, npatch)"
    and "version args = ''minor''"
  shows "validate_semver_change cur new args =
           (if raw cur = raw new then Inl MatchingVersions
            else if \<not> (cmaj = nmaj \<and> npatch = 0) then Inl InvalidMinorChange
            else if cmin + 1 = nmin then Inr () else Inl InvalidVersionIncrease)"
  using assms
  by (simp add: validate_semver_change_def patch_branch_def minor_branch_def major_branch_def)

lemma validate_major:
  assumes "parse cur = Inr (cmaj, cmin, cpatch)" and "parse new = Inr (nmaj, nmin, npatch)"
    and "version args = ''major''"
  shows "validate_semver_change cur new args =
           (if raw cur = raw new then Inl MatchingVersions
            else if \<not> (cmin = 0 \<and> npatch = 0) then Inl InvalidMajorChange
            else if cmaj + 1 = nmaj then Inr () else Inl InvalidVersionIncrease)"
  using assms
  by (simp add: validate_semver_change_def patch_branch_def minor_branch_def major_branch_def)

lemma validate_other:
  assumes "parse cur = Inr c" and "parse new = Inr n"
    and "version args \<notin> {''patch'', ''minor'', ''major''}"
  shows "validate_semver_change cur new args =
           (if raw cur = raw new then Inl MatchingVersions else Inl InvalidVersionIncrease)"
  using assms
  by (cases c; cases n)
     (simp add: validate_semver_change_def patch_branch_def minor_branch_def major_branch_def)

text \<open>
  C1. The claim: with bump kind patch, equal majors and different minors, the
  transition fails with "invalid patch sem-ver change". The patch branch compares
  \<open>cmin\<close> with itself, so the minor components are never compared: from 1.0.2 to
  1.1.3 the transition is accepted, and from 1.0.2 to 1.1.0 it is rejected only by
  the increment check, as "invalid version increase".
\<close>

theorem patch_bump_ignores_minor:
  "validate_semver_change \<lparr>raw = ''1.0.2''\<rparr> \<lparr>raw = ''1.1.3''\<rparr>
      \<lparr>tag = ''1.1.3'', version = ''patch''\<rparr> = Inr ()
   \<and> validate_semver_change \<lparr>raw = ''1.0.2''\<rparr> \<lparr>raw = ''1.1.0''\<rparr>
      \<lparr>tag = ''1.1.0'', version = ''patch''\<rparr> = Inl InvalidVersionIncrease"
  by code_simp

text \<open>
  C6. With bump kind minor, and the two texts different, the transition is judged
  on \<open>cmaj = nmaj\<close> and \<open>npatch = 0\<close> alone (the current patch plays no part),
  and then succeeds exactly when the new minor is the current minor plus one. From
  1.2.5 to 1.3.0 it succeeds.
\<close>

theorem minor_bump_rule:
  assumes "parse cur = Inr (cmaj, cmin, cpatch)" and "parse new = Inr (nmaj, nmin, npatch)"
    and "raw cur \<noteq> raw new" and "version args = ''minor''"
  shows "validate_semver_change cur new args =
           (if cmaj = nmaj \<and> npatch = 0
            then (if nmin = cmin + 1 then Inr () else Inl InvalidVersionIncrease)
            else Inl InvalidMinorChange)"
  using validate_minor [OF assms(1,2,4)] assms(3) by auto

theorem minor_bump_rule_witness:
  "parse \<lparr>raw = ''1.2.5''\<rparr> = Inr (1, 2, 5) \<and> parse \<lparr>raw = ''1.3.0''\<rparr> = Inr (1, 3, 0)
   \<and> raw \<lparr>raw = ''1.2.5''\<rparr> \<noteq> raw \<lparr>raw = ''1.3.0''\<rparr>
   \<and> version \<lparr>tag = ''1.3.0'', version = ''minor''\<rparr> = ''minor''
   \<and> validate_semver_change \<lparr>raw = ''1.2.5''\<rparr> \<lparr>raw = ''1.3.0''\<rparr>
        \<lparr>tag = ''1.3.0'', version = ''minor''\<rparr> = Inr ()"
proof -
  have c: "parse \<lparr>raw = ''1.2.5''\<rparr> = Inr (1, 2, 5)" by code_simp
  have n: "parse \<lparr>raw = ''1.3.0''\<rparr> = Inr (1, 3, 0)" by code_simp
  have d: "raw \<lparr>raw = ''1.2.5''\<rparr> \<noteq> raw \<lparr>raw = ''1.3.0''\<rparr>" by simp
  have k: "version \<lparr>tag = ''1.3.0'', version = ''minor''\<rparr> = ''minor''" by simp
  show ?thesis using minor_bump_rule [OF c n d k] c n d k by simp
qed

text \<open>
  C7. With bump kind major, and the two texts different, the transition is judged
  on \<open>cmin = 0\<close> (the minor of the current version) and \<open>npatch = 0\<close>, and then
  succeeds exactly when the new major is the current major plus one. From 2.1.0 to
  3.0.0 it fails with "invalid major sem-ver change".
\<close>

theorem major_bump_rule:
  assumes "parse cur = Inr (cmaj, cmin, cpatch)" and "parse new = Inr (nmaj, nmin, npatch)"
    and "raw cur \<noteq> raw new" and "version args = ''major''"
  shows "validate_semver_change cur new args =
           (if cmin = 0 \<and> npatch = 0
            then (if nmaj = cmaj + 1 then Inr () else Inl InvalidVersionIncrease)
            else Inl InvalidMajorChange)"
  using validate_major [OF assms(1,2,4)] assms(3) by auto

theorem major_bump_rule_witness:
  "parse \<lparr>raw = ''2.1.0''\<rparr> = Inr (2, 1, 0) \<and> parse \<lparr>raw = ''3.0.0''\<rparr> = Inr (3, 0, 0)
   \<and> raw \<lparr>raw = ''2.1.0''\<rparr> \<noteq> raw \<lparr>raw = ''3.0.0''\<rparr>
   \<and> version \<lparr>tag = ''3.0.0'', version = ''major''\<rparr> = ''major''
   \<and> validate_semver_change \<lparr>raw = ''2.1.0''\<rparr> \<lparr>raw = ''3.0.0''\<rparr>
        \<lparr>tag = ''3.0.0'', version = ''major''\<rparr> = Inl InvalidMajorChange"
proof -
  have c: "parse \<lparr>raw = ''2.1.0''\<rparr> = Inr (2, 1, 0)" by code_simp
  have n: "parse \<lparr>raw = ''3.0.0''\<rparr> = Inr (3, 0, 0)" by code_simp
  have d: "raw \<lparr>raw = ''2.1.0''\<rparr> \<noteq> raw \<lparr>raw = ''3.0.0''\<rparr>" by simp
  have k: "version \<lparr>tag = ''3.0.0'', version = ''major''\<rparr> = ''major''" by simp
  show ?thesis using major_bump_rule [OF c n d k] c n d k by simp
qed

text \<open>
  C8. Once the preconditions of the declared bump kind hold, the transition
  succeeds exactly when the compared new value is the compared old value plus one.
  When it fails, the diagnostic is "invalid version increase", except that two
  identical texts have already been rejected as matching by the first check. From
  1.0.0 to 1.0.2 with bump kind patch the transition fails with "invalid version
  increase".
\<close>

theorem increment_rule:
  assumes "parse cur = Inr (cmaj, cmin, cpatch)" and "parse new = Inr (nmaj, nmin, npatch)"
  shows "(version args = ''patch'' \<and> cmaj = nmaj \<and> cmin = nmin \<longrightarrow>
            validate_semver_change cur new args =
              (if npatch = cpatch + 1 then Inr ()
               else if raw cur = raw new then Inl MatchingVersions else Inl InvalidVersionIncrease))
       \<and> (version args = ''minor'' \<and> cmaj = nmaj \<and> npatch = 0 \<longrightarrow>
            validate_semver_change cur new args =
              (if nmin = cmin + 1 then Inr ()
               else if raw cur = raw new then Inl MatchingVersions else Inl InvalidVersionIncrease))
       \<and> (version args = ''major'' \<and> cmin = 0 \<and> npatch = 0 \<longrightarrow>
            validate_semver_change cur new args =
              (if nmaj = cmaj + 1 then Inr ()
               else if raw cur = raw new then Inl MatchingVersions else Inl InvalidVersionIncrease))"
proof -
  have same: "raw cur = raw new \<Longrightarrow> cmaj = nmaj \<and> cmin = nmin \<and> cpatch = npatch"
  proof -
    assume "raw cur = raw new"
    then have "parse cur = parse new" by (simp add: parse_def)
    with assms show ?thesis by simp
  qed
  show ?thesis
    using validate_patch [OF assms, of args] validate_minor [OF assms, of args]
      validate_major [OF assms, of args] same
    by auto
qed

theorem increment_rule_witness:
  "validate_semver_change \<lparr>raw = ''1.0.0''\<rparr> \<lparr>raw = ''1.0.2''\<rparr>
      \<lparr>tag = ''1.0.2'', version = ''patch''\<rparr> = Inl InvalidVersionIncrease
   \<and> validate_semver_change \<lparr>raw = ''1.0.2''\<rparr> \<lparr>raw = ''1.0.3''\<rparr>
      \<lparr>tag = ''1.0.3'', version = ''patch''\<rparr> = Inr ()
   \<and> validate_semver_change \<lparr>raw = ''1.2.0''\<rparr> \<lparr>raw = ''1.3.0''\<rparr>
      \<lparr>tag = ''1.3.0'', version = ''minor''\<rparr> = Inr ()
   \<and> validate_semver_change \<lparr>raw = ''2.0.5''\<rparr> \<lparr>raw = ''3.0.0''\<rparr>
      \<lparr>tag = ''3.0.0'', version = ''major''\<rparr> = Inr ()"
proof -
  have p: "parse \<lparr>raw = ''1.0.0''\<rparr> = Inr (1, 0, 0)" "parse \<lparr>raw = ''1.0.2''\<rparr> = Inr (1, 0, 2)"
    "parse \<lparr>raw = ''1.0.3''\<rparr> = Inr (1, 0, 3)" "parse \<lparr>raw = ''1.2.0''\<rparr> = Inr (1, 2, 0)"
    "parse \<lparr>raw = ''1.3.0''\<rparr> = Inr (1, 3, 0)" "parse \<lparr>raw = ''2.0.5''\<rparr> = Inr (2, 0, 5)"
    "parse \<lparr>raw = ''3.0.0''\<rparr> = Inr (3, 0, 0)"
    by code_simp+
  show ?thesis
    using increment_rule [OF p(1) p(2), of "\<lparr>tag = ''1.0.2'', version = ''patch''\<rparr>"]
      increment_rule [OF p(2) p(3), of "\<lparr>tag = ''1.0.3'', version = ''patch''\<rparr>"]
      increment_rule [OF p(4) p(5), of "\<lparr>tag = ''1.3.0'', version = ''minor''\<rparr>"]
      increment_rule [OF p(6) p(7), of "\<lparr>tag = ''3.0.0'', version = ''major''\<rparr>"]
    by simp
qed

text \<open>
  C3, as claimed: two versions with the same three components are rejected as
  matching, whatever the bump kind. The first check compares the two texts, not
  the components, and \<open>is_valid\<close> accepts a version followed by one newline (the
  form in which a line of \<open>version.txt\<close> is read). The text of 1.0.0 with a
  newline and the text of 1.0.0 without one are both valid and parse to the same
  components, yet the transition between them is rejected by a later check; a run
  with that file and the tag 1.0.0 ends the same way.
\<close>

theorem equal_components_counterexample:
  "is_valid \<lparr>raw = ''1.0.0\<newline>''\<rparr> \<and> is_valid \<lparr>raw = ''1.0.0''\<rparr>
   \<and> parse \<lparr>raw = ''1.0.0\<newline>''\<rparr> = Inr (1, 0, 0) \<and> parse \<lparr>raw = ''1.0.0''\<rparr> = Inr (1, 0, 0)
   \<and> validate_semver_change \<lparr>raw = ''1.0.0\<newline>''\<rparr> \<lparr>raw = ''1.0.0''\<rparr>
        \<lparr>tag = ''1.0.0'', version = ''patch''\<rparr> = Inl InvalidVersionIncrease
   \<and> validate_semver_change \<lparr>raw = ''1.1.0\<newline>''\<rparr> \<lparr>raw = ''1.1.0''\<rparr>
        \<lparr>tag = ''1.1.0'', version = ''major''\<rparr> = Inl InvalidMajorChange
   \<and> main \<lparr>parsed_args = Some (''1.0.0'', ''patch''), version_txt = Some ''1.0.0\<newline>'',
        dotenv_exists = True, dotenv_importable = True,
        DOCKERHUB_ID = Some ''user'', DOCKERHUB_PW = Some ''secret'',
        dockerfile_exists = True, project_root_exists = True,
        login_returncode = 0, build_returncode = 0, image_ls_returncode = 0,
        push_returncode = 0\<rparr> = (Inl InvalidVersionIncrease, Some ''1.0.0\<newline>'')"
  by code_simp

text \<open>
  C3, amended: two versions with the same text are rejected as matching, whatever
  the bump kind. Two versions with the same three components and different texts
  are rejected as well, with "invalid version increase" or with the precondition
  diagnostic of the minor or major bump.
\<close>

theorem no_change_rule:
  "(raw cur = raw new \<longrightarrow> validate_semver_change cur new args = Inl MatchingVersions)
   \<and> (parse cur = Inr t \<and> parse new = Inr t \<and> raw cur \<noteq> raw new \<longrightarrow>
        validate_semver_change cur new args
          \<in> {Inl InvalidVersionIncrease, Inl InvalidMinorChange, Inl InvalidMajorChange})"
proof (intro conjI impI)
  assume "raw cur = raw new"
  then show "validate_semver_change cur new args = Inl MatchingVersions"
    by (simp add: validate_semver_change_def)
next
  assume a: "parse cur = Inr t \<and> parse new = Inr t \<and> raw cur \<noteq> raw new"
  obtain ma mi pa where t: "t = (ma, mi, pa)" by (cases t)
  from a t have c: "parse cur = Inr (ma, mi, pa)" and n: "parse new = Inr (ma, mi, pa)"
    and d: "raw cur \<noteq> raw new" by simp_all
  consider "version args = ''patch''" | "version args = ''minor''" | "version args = ''major''"
    | "version args \<notin> {''patch'', ''minor'', ''major''}" by blast
  then show "validate_semver_change cur new args
          \<in> {Inl InvalidVersionIncrease, Inl InvalidMinorChange, Inl InvalidMajorChange}"
  proof cases
    case 1 then show ?thesis using validate_patch [OF c n] d by simp
  next
    case 2 then show ?thesis using validate_minor [OF c n] d by simp
  next
    case 3 then show ?thesis using validate_major [OF c n] d by simp
  next
    case 4 then show ?thesis using validate_other [OF c n] d by simp
  qed
qed

theorem no_change_rule_witness:
  "validate_semver_change \<lparr>raw = ''1.0.0''\<rparr> \<lparr>raw = ''1.0.0''\<rparr>
      \<lparr>tag = ''1.0.0'', version = ''minor''\<rparr> = Inl MatchingVersions
   \<and> parse \<lparr>raw = ''1.0.0\<newline>''\<rparr> = Inr (1, 0, 0) \<and> parse \<lparr>raw = ''1.0.0''\<rparr> = Inr (1, 0, 0)
   \<and> raw \<lparr>raw = ''1.0.0\<newline>''\<rparr> \<noteq> raw \<lparr>raw = ''1.0.0''\<rparr>
   \<and> validate_semver_change \<lparr>raw = ''1.0.0\<newline>''\<rparr> \<lparr>raw = ''1.0.0''\<rparr>
        \<lparr>tag = ''1.0.0'', version = ''patch''\<rparr>
       \<in> {Inl InvalidVersionIncrease, Inl InvalidMinorChange, Inl InvalidMajorChange}"
proof -
  have p: "parse \<lparr>raw = ''1.0.0\<newline>''\<rparr> = Inr (1, 0, 0)" "parse \<lparr>raw = ''1.0.0''\<rparr> = Inr (1, 0, 0)"
    by code_simp+
  have d: "raw \<lparr>raw = ''1.0.0\<newline>''\<rparr> \<noteq> raw \<lparr>raw = ''1.0.0''\<rparr>" by simp
  show ?thesis
    using no_change_rule [of "\<lparr>raw = ''1.0.0''\<rparr>" "\<lparr>raw = ''1.0.0''\<rparr>"
        "\<lparr>tag = ''1.0.0'', version = ''minor''\<rparr>"]
      no_change_rule [of "\<lparr>raw = ''1.0.0\<newline>''\<rparr>" "\<lparr>raw = ''1.0.0''\<rparr>"
        "\<lparr>tag = ''1.0.0'', version = ''patch''\<rparr>" "(1, 0, 0)"] p d
    by simp
qed

section \<open>The run and the version file\<close>

lemma main_failure_keeps_file: "fst (main w) \<noteq> Inr () \<Longrightarrow> snd (main w) = version_txt w"
  by (simp add: main_def overwrite_version_def Let_def split: sum.splits if_splits)

lemma main_success_gates:
  assumes "fst (main w) = Inr ()"
  shows "\<exists>args cur creds.
           get_cmd_args w = Inr args \<and> get_current_sem_ver (version_txt w) = Inr cur
         \<and> is_valid cur \<and> is_valid \<lparr>raw = tag args\<rparr>
         \<and> validate_semver_change cur \<lparr>raw = tag args\<rparr> args = Inr ()
         \<and> load_dotenv w = Inr () \<and> get_dockerhub_creds w = Inr creds
         \<and> login w creds = Inr () \<and> build w creds args = Inr () \<and> show_image w = Inr ()
         \<and> push w creds args = Inr () \<and> snd (main w) = Some (tag args)"
proof -
  note m = main_def Let_def
  obtain args where 1: "get_cmd_args w = Inr args"
    using assms by (cases "get_cmd_args w") (simp_all add: m)
  obtain cur where 2: "get_current_sem_ver (version_txt w) = Inr cur"
    using assms 1 by (cases "get_current_sem_ver (version_txt w)") (simp_all add: m)
  have 3: "is_valid cur"
    using assms 1 2 by (cases "is_valid cur") (simp_all add: m)
  have 4: "is_valid \<lparr>raw = tag args\<rparr>"
    using assms 1 2 3 by (cases "is_valid \<lparr>raw = tag args\<rparr>") (simp_all add: m)
  have 5: "validate_semver_change cur \<lparr>raw = tag args\<rparr> args = Inr ()"
    using assms 1 2 3 4
    by (cases "validate_semver_change cur \<lparr>raw = tag args\<rparr> args") (simp_all add: m)
  have 6: "load_dotenv w = Inr ()"
    using assms 1 2 3 4 5 by (cases "load_dotenv w") (simp_all add: m)
  obtain creds where 7: "get_dockerhub_creds w = Inr creds"
    using assms 1 2 3 4 5 6 by (cases "get_dockerhub_creds w") (simp_all add: m)
  have 8: "login w creds = Inr ()"
    using assms 1 2 3 4 5 6 7 by (cases "login w creds") (simp_all add: m)
  have 9: "build w creds args = Inr ()"
    using assms 1 2 3 4 5 6 7 8 by (cases "build w creds args") (simp_all add: m)
  have 10: "show_image w = Inr ()"
    using assms 1 2 3 4 5 6 7 8 9 by (cases "show_image w") (simp_all add: m)
  have 11: "push w creds args = Inr ()"
    using assms 1 2 3 4 5 6 7 8 9 10 by (cases "push w creds args") (simp_all add: m)
  have 12: "main w = overwrite_version \<lparr>raw = tag args\<rparr> (version_txt w)"
    using 1 2 3 4 5 6 7 8 9 10 11 by (simp add: m)
  have 13: "snd (main w) = Some (tag args)"
    using assms 4 unfolding 12
    by (simp add: overwrite_version_def split: sum.splits)
  show ?thesis using 1 2 3 4 5 6 7 8 9 10 11 13 by blast
qed

lemma push_failure_fails: "push_returncode w \<noteq> 0 \<Longrightarrow> fst (main w) \<noteq> Inr ()"
  by (simp add: main_def overwrite_version_def push_def Let_def split: sum.splits if_splits)

text \<open>
  C5. \<open>main\<close> writes the version file in its last step only. A run that fails
  anywhere leaves the file as it was; a failing push makes the run fail; and a run
  that succeeds has passed every gate (arguments, both validity checks, the
  transition check, credentials, login, build, image listing, push) and leaves the
  requested tag in the file. With 1.0.0 in the file and tag 1.0.1, bump patch, the
  file ends as 1.0.1 when every step succeeds and stays 1.0.0 when the push fails.
\<close>

theorem version_record_written_last:
  "(fst (main w) \<noteq> Inr () \<longrightarrow> snd (main w) = version_txt w)
   \<and> (push_returncode w \<noteq> 0 \<longrightarrow> fst (main w) \<noteq> Inr () \<and> snd (main w) = version_txt w)
   \<and> (fst (main w) = Inr () \<longrightarrow>
        (\<exists>args cur creds.
           get_cmd_args w = Inr args \<and> get_current_sem_ver (version_txt w) = Inr cur
         \<and> is_valid cur \<and> is_valid \<lparr>raw = tag args\<rparr>
         \<and> validate_semver_change cur \<lparr>raw = tag args\<rparr> args = Inr ()
         \<and> load_dotenv w = Inr () \<and> get_dockerhub_creds w = Inr creds
         \<and> login w creds = Inr () \<and> build w creds args = Inr () \<and> show_image w = Inr ()
         \<and> push w creds args = Inr () \<and> snd (main w) = Some (tag args)))"
  using main_failure_keeps_file [of w] main_success_gates [of w] push_failure_fails [of w]
  by blast

theorem version_record_written_last_witness:
  "main \<lparr>parsed_args = Some (''1.0.1'', ''patch''), version_txt = Some ''1.0.0'',
      dotenv_exists = True, dotenv_importable = True,
      DOCKERHUB_ID = Some ''user'', DOCKERHUB_PW = Some ''secret'',
      dockerfile_exists = True, project_root_exists = True,
      login_returncode = 0, build_returncode = 0, image_ls_returncode = 0,
      push_returncode = 0\<rparr> = (Inr (), Some ''1.0.1'')
   \<and> main \<lparr>parsed_args = Some (''1.0.1'', ''patch''), version_txt = Some ''1.0.0'',
      dotenv_exists = True, dotenv_importable = True,
      DOCKERHUB_ID = Some ''user'', DOCKERHUB_PW = Some ''secret'',
      dockerfile_exists = True, project_root_exists = True,
      login_returncode = 0, build_returncode = 0, image_ls_returncode = 0,
      push_returncode = 1\<rparr> = (Inl PushFailed, Some ''1.0.0'')"
proof -
  let ?ok = "\<lparr>parsed_args = Some (''1.0.1'', ''patch''), version_txt = Some ''1.0.0'',
      dotenv_exists = True, dotenv_importable = True,
      DOCKERHUB_ID = Some ''user'', DOCKERHUB_PW = Some ''secret'',
      dockerfile_exists = True, project_root_exists = True,
      login_returncode = 0, build_returncode = 0, image_ls_returncode = 0,
      push_returncode = 0\<rparr>"
  let ?ko = "\<lparr>parsed_args = Some (''1.0.1'', ''patch''), version_txt = Some ''1.0.0'',
      dotenv_exists = True, dotenv_importable = True,
      DOCKERHUB_ID = Some ''user'', DOCKERHUB_PW = Some ''secret'',
      dockerfile_exists = True, project_root_exists = True,
      login_returncode = 0, build_returncode = 0, image_ls_returncode = 0,
      push_returncode = 1\<rparr>"
  have ok: "fst (main ?ok) = Inr ()" by code_simp
  have args: "get_cmd_args ?ok = Inr \<lparr>tag = ''1.0.1'', version = ''patch''\<rparr>"
    by (simp add: get_cmd_args_def)
  have ko: "fst (main ?ko) = Inl PushFailed" by code_simp
  have "snd (main ?ok) = Some ''1.0.1''"
    using version_record_written_last [of ?ok] ok args by auto
  moreover have "snd (main ?ko) = Some ''1.0.0''"
    using version_record_written_last [of ?ko] by simp
  ultimately show ?thesis using ok ko by (simp add: prod_eq_iff)
qed

section \<open>What \<open>is_valid\<close> accepts and what \<open>parse\<close> returns\<close>

text \<open>
  The matcher is followed through the pattern, piece by piece: which states a
  repetition of digits, a component, a literal and the end anchor reach. The
  result is the shape of every accepted text.
\<close>

lemma of_char_consts [simp]:
  "(of_char CHR ''0'' :: nat) = 48" "(of_char CHR ''1'' :: nat) = 49" "(of_char CHR ''9'' :: nat) = 57"
  "(of_char CHR ''.'' :: nat) = 46" "(of_char newline :: nat) = 10"
  by (simp_all add: newline_def)

lemma nonzero_is_digit: "in_range CHR ''1'' CHR ''9'' c \<Longrightarrow> is_digit c"
  by (simp add: in_range_def is_digit_def)

lemma zero_is_digit: "is_digit CHR ''0''"
  by (simp add: is_digit_def)

lemma digit_not_dot: "is_digit c \<Longrightarrow> c \<noteq> CHR ''.''"
  by (auto simp: is_digit_def)

lemma digit_not_newline: "is_digit c \<Longrightarrow> c \<noteq> newline"
  by (auto simp: is_digit_def)

lemma digit_not_space: "is_digit c \<Longrightarrow> \<not> is_space c"
  by (auto simp: is_digit_def is_space_def Let_def)

lemma newline_is_space: "is_space newline"
  by (simp add: is_space_def)

lemma newline_not_dot: "newline \<noteq> CHR ''.''"
proof
  assume "newline = CHR ''.''"
  then have "(of_char newline :: nat) = of_char CHR ''.''" by simp
  then show False by simp
qed

lemma spec_component_Nil [simp]: "\<not> spec_component []"
  by (simp add: spec_component_def)

lemma spec_component_Cons [simp]:
  "spec_component (x # xs) \<longleftrightarrow>
     (x = CHR ''0'' \<and> xs = []) \<or> (in_range CHR ''1'' CHR ''9'' x \<and> list_all is_digit xs)"
  by (simp add: spec_component_def)

lemma star_iter_digit:
  "length s \<le> n \<Longrightarrow>
     set (star_iter (step Digit) n (i, s)) = {(i + length w, t) | w t. s = w @ t \<and> list_all is_digit w}"
proof (induction n arbitrary: i s)
  case 0
  then show ?case by auto
next
  case (Suc n)
  show ?case
  proof (cases s)
    case Nil
    then show ?thesis by auto
  next
    case (Cons x xs)
    show ?thesis
    proof (cases "is_digit x")
      case True
      have len: "length xs \<le> n" using Suc.prems Cons by simp
      have "set (star_iter (step Digit) (Suc n) (i, s))
              = insert (i, s) (set (star_iter (step Digit) n (Suc i, xs)))"
        using Cons True by simp
      also have "\<dots> = insert (i, s) {(Suc i + length w, t) | w t. xs = w @ t \<and> list_all is_digit w}"
        using Suc.IH [OF len] by simp
      also have "\<dots> = {(i + length w, t) | w t. s = w @ t \<and> list_all is_digit w}"
        using Cons True by (auto simp: Cons_eq_append_conv) 
      finally show ?thesis .
    next
      case False
      then show ?thesis using Cons by (auto simp: Cons_eq_append_conv)
    qed
  qed
qed

lemma step_star_digit:
  "set (step (Star Digit) (i, s)) = {(i + length w, t) | w t. s = w @ t \<and> list_all is_digit w}"
  using star_iter_digit [of s "length s" i] by simp

lemma step_seq: "set (step (Seq r1 r2) st) = (\<Union>st' \<in> set (step r1 st). set (step r2 st'))"
  by simp

lemma step_lit: "set (step (Lit c) (i, s)) = {(Suc i, t) | t. s = c # t}"
  by (auto split: list.splits)

lemma step_component:
  "set (step component (i, s)) = {(i + length w, t) | w t. s = w @ t \<and> spec_component w}"
  (is "?L = ?R")
proof (cases s)
  case Nil
  then show ?thesis by (auto simp: component_def spec_component_def)
next
  case (Cons x xs)
  have L: "?L = (if x = CHR ''0'' then {(Suc i, xs)} else {})
       \<union> (if in_range CHR ''1'' CHR ''9'' x
          then {(Suc i + length w, t) | w t. xs = w @ t \<and> list_all is_digit w} else {})"
    unfolding component_def using Cons step_star_digit [of "Suc i" xs]
    by (simp del: step.simps(8) add: step.simps(1-7))
  have R: "?R = (if x = CHR ''0'' then {(Suc i, xs)} else {})
       \<union> (if in_range CHR ''1'' CHR ''9'' x
          then {(Suc i + length w, t) | w t. xs = w @ t \<and> list_all is_digit w} else {})"
    using Cons
    by (auto simp: Cons_eq_append_conv)
  show ?thesis using L R by simp
qed

lemma seq_component:
  "set (step (Seq component r) (i, s))
     = {st. \<exists>w t. s = w @ t \<and> spec_component w \<and> st \<in> set (step r (i + length w, t))}"
  unfolding step_seq step_component by blast

lemma seq_lit:
  "set (step (Seq (Lit c) r) (i, s)) = {st. \<exists>t. s = c # t \<and> st \<in> set (step r (Suc i, t))}"
  unfolding step_seq step_lit by blast

lemma step_eol: "set (step Eol (i, s)) = {st. st = (i, s) \<and> (s = [] \<or> s = [newline])}"
  by auto

lemma seq_bol: "set (step (Seq Bol r) (0, s)) = set (step r (0, s))"
  by simp

lemma in_seq_component:
  "spec_component w \<Longrightarrow> st \<in> set (step r (i + length w, t)) \<Longrightarrow>
     st \<in> set (step (Seq component r) (i, w @ t))"
  unfolding seq_component by blast

lemma in_seq_lit:
  "st \<in> set (step r (Suc i, t)) \<Longrightarrow> st \<in> set (step (Seq (Lit c) r) (i, c # t))"
  unfolding seq_lit by blast

lemma in_eol: "r = [] \<or> r = [newline] \<Longrightarrow> (i, r) \<in> set (step Eol (i, r))"
  by auto

lemma re_match_semver:
  "re_match semver_pattern s \<longleftrightarrow>
     (\<exists>a b c r. s = a @ CHR ''.'' # b @ CHR ''.'' # c @ r
        \<and> spec_component a \<and> spec_component b \<and> spec_component c \<and> (r = [] \<or> r = [newline]))"
  (is "?L \<longleftrightarrow> ?R")
proof
  assume ?L
  then have "set (step semver_pattern (0, s)) \<noteq> {}"
    by (simp add: re_match_def)
  then show ?R
    unfolding semver_pattern_def seq_bol seq_component seq_lit step_eol
    by auto
next
  assume ?R
  then obtain a b c r where s: "s = a @ CHR ''.'' # b @ CHR ''.'' # c @ r"
    and a: "spec_component a" and b: "spec_component b" and c: "spec_component c"
    and r: "r = [] \<or> r = [newline]"
    by blast
  let ?i = "Suc (length a)"
  let ?j = "Suc (?i + length b)"
  have "(?j + length c, r) \<in> set (step (Seq component Eol) (?j, c @ r))"
    by (rule in_seq_component [OF c in_eol [OF r]])
  then have "(?j + length c, r) \<in> set (step (Seq (Lit CHR ''.'') (Seq component Eol)) (?i + length b, CHR ''.'' # c @ r))"
    by (rule in_seq_lit)
  then have "(?j + length c, r)
      \<in> set (step (Seq component (Seq (Lit CHR ''.'') (Seq component Eol))) (?i, b @ CHR ''.'' # c @ r))"
    by (rule in_seq_component [OF b])
  then have "(?j + length c, r)
      \<in> set (step (Seq (Lit CHR ''.'') (Seq component (Seq (Lit CHR ''.'') (Seq component Eol))))
           (0 + length a, CHR ''.'' # b @ CHR ''.'' # c @ r))"
    using in_seq_lit [of _ _ "length a"] by simp
  then have "(?j + length c, r)
      \<in> set (step (Seq component (Seq (Lit CHR ''.'') (Seq component (Seq (Lit CHR ''.'') (Seq component Eol)))))
           (0, a @ CHR ''.'' # b @ CHR ''.'' # c @ r))"
    by (rule in_seq_component [OF a])
  then have "(?j + length c, r) \<in> set (step semver_pattern (0, s))"
    unfolding semver_pattern_def seq_bol s .
  then show ?L
    unfolding re_match_def by (metis empty_iff empty_set)
qed

lemma component_digits: "spec_component w \<Longrightarrow> w \<noteq> [] \<and> list_all is_digit w"
  by (cases w) (auto simp: nonzero_is_digit zero_is_digit)

lemma digits_no_dot: "list_all is_digit w \<Longrightarrow> CHR ''.'' \<notin> set w"
  using digit_not_dot by (auto simp: list_all_iff)

lemma digits_no_newline: "list_all is_digit w \<Longrightarrow> newline \<notin> set w"
  using digit_not_newline by (auto simp: list_all_iff)

lemma py_split_not_Nil [simp]: "py_split sep s \<noteq> []"
  by (induction s) (auto split: list.splits)

lemma py_split_no_sep: "sep \<notin> set a \<Longrightarrow> py_split sep a = [a]"
  by (induction a) auto

lemma py_split_append: "sep \<notin> set a \<Longrightarrow> py_split sep (a @ sep # rest) = a # py_split sep rest"
  by (induction a) auto

lemma py_split_single: "py_split sep s = [x] \<Longrightarrow> s = x"
  by (induction s arbitrary: x) (auto split: if_splits list.splits)

lemma py_split_more:
  "py_split sep s = x # y # ys \<Longrightarrow> \<exists>rest. s = x @ sep # rest \<and> py_split sep rest = y # ys"
  by (induction s arbitrary: x) (auto split: if_splits list.splits)

lemma spec_semver_iff:
  "spec_semver s \<longleftrightarrow>
     (\<exists>a b c. s = a @ CHR ''.'' # b @ CHR ''.'' # c
        \<and> spec_component a \<and> spec_component b \<and> spec_component c)"
  (is "?L \<longleftrightarrow> ?R")
proof
  assume ?L
  then obtain a b c where sp: "py_split CHR ''.'' s = [a, b, c]"
    and abc: "spec_component a" "spec_component b" "spec_component c"
    by (auto simp: spec_semver_def split: list.splits)
  from py_split_more [OF sp] obtain r1 where r1: "s = a @ CHR ''.'' # r1"
    and sp1: "py_split CHR ''.'' r1 = [b, c]" by blast
  from py_split_more [OF sp1] obtain r2 where r2: "r1 = b @ CHR ''.'' # r2"
    and sp2: "py_split CHR ''.'' r2 = [c]" by blast
  from py_split_single [OF sp2] have "r2 = c" .
  with r1 r2 abc show ?R by blast
next
  assume ?R
  then obtain a b c where s: "s = a @ CHR ''.'' # b @ CHR ''.'' # c"
    and abc: "spec_component a" "spec_component b" "spec_component c" by blast
  have nd: "CHR ''.'' \<notin> set a" "CHR ''.'' \<notin> set b" "CHR ''.'' \<notin> set c"
    using abc component_digits digits_no_dot by blast+
  have "py_split CHR ''.'' s = [a, b, c]"
    unfolding s by (simp add: py_split_append py_split_no_sep nd)
  then show ?L using abc by (simp add: spec_semver_def)
qed

lemma is_valid_iff:
  "is_valid v \<longleftrightarrow> spec_semver (raw v) \<or> (\<exists>t. raw v = t @ [newline] \<and> spec_semver t)"
  (is "?L \<longleftrightarrow> ?R")
proof
  assume ?L
  then obtain a b c r where s: "raw v = a @ CHR ''.'' # b @ CHR ''.'' # c @ r"
    and abc: "spec_component a \<and> spec_component b \<and> spec_component c"
    and r: "r = [] \<or> r = [newline]"
    unfolding is_valid_def re_match_semver by blast
  have t: "spec_semver (a @ CHR ''.'' # b @ CHR ''.'' # c)"
    unfolding spec_semver_iff using abc by blast
  from r show ?R
  proof
    assume "r = []"
    with s t show ?R by simp
  next
    assume "r = [newline]"
    with s have "raw v = (a @ CHR ''.'' # b @ CHR ''.'' # c) @ [newline]" by simp
    with t show ?R by blast
  qed
next
  assume ?R
  then show ?L
  proof
    assume "spec_semver (raw v)"
    then obtain a b c where "raw v = a @ CHR ''.'' # b @ CHR ''.'' # c @ []"
      and "spec_component a \<and> spec_component b \<and> spec_component c"
      unfolding spec_semver_iff by auto
    then show ?L unfolding is_valid_def re_match_semver by blast
  next
    assume "\<exists>t. raw v = t @ [newline] \<and> spec_semver t"
    then obtain a b c where "raw v = a @ CHR ''.'' # b @ CHR ''.'' # c @ [newline]"
      and "spec_component a \<and> spec_component b \<and> spec_component c"
      unfolding spec_semver_iff by auto
    then show ?L unfolding is_valid_def re_match_semver by blast
  qed
qed

lemma int_digits_digits:
  "list_all is_digit w \<Longrightarrow> int_digits acc w = Some (foldl (\<lambda>a c. 10 * a + digit_value c) acc w)"
  by (induction w arbitrary: acc) auto

lemma foldl_digits_nonneg:
  "list_all is_digit w \<Longrightarrow> 0 \<le> acc \<Longrightarrow> 0 \<le> foldl (\<lambda>a c. 10 * a + digit_value c) acc w"
  by (induction w arbitrary: acc) (auto simp: is_digit_def digit_value_def)

lemma decimal_value_nonneg: "list_all is_digit w \<Longrightarrow> 0 \<le> decimal_value w"
  unfolding decimal_value_def by (rule foldl_digits_nonneg) simp_all

lemma strip_digits:
  assumes "w \<noteq> []" and "list_all is_digit w" and "r = [] \<or> r = [newline]"
  shows "strip (w @ r) = w"
proof -
  have h: "\<not> is_space (hd w)" using assms(1,2) digit_not_space by (cases w) auto
  have l: "\<not> is_space (last w)"
    using assms(1,2) digit_not_space by (auto simp: list_all_iff)
  have 1: "dropWhile is_space (w @ r) = w @ r"
    using assms(1) h by (cases w) auto
  have 2: "dropWhile is_space (rev r @ rev w) = rev w"
    using assms(1,3) l newline_is_space by (cases "rev w") (auto simp: hd_rev) 
  show ?thesis unfolding strip_def 1 using 2 by simp
qed

lemma digit_not_sign: "is_digit c \<Longrightarrow> c \<noteq> CHR ''-'' \<and> c \<noteq> CHR ''+''"
  by (auto simp: is_digit_def)

lemma filter_digits: "list_all is_digit w \<Longrightarrow> filter is_digit w = w"
  by (induction w) auto

lemma filter_digits_newline:
  "list_all is_digit w \<Longrightarrow> r = [] \<or> r = [newline] \<Longrightarrow> filter is_digit (w @ r) = w"
proof -
  assume w: "list_all is_digit w" and r: "r = [] \<or> r = [newline]"
  have "\<not> is_digit newline" using digit_not_newline by blast
  then have "filter is_digit r = []" using r by auto
  then show ?thesis using filter_digits [OF w] by simp
qed

lemma py_int_digits:
  assumes "w \<noteq> []" and "list_all is_digit w" and "r = [] \<or> r = [newline]"
  shows "py_int (w @ r) =
           (if length w \<le> int_max_str_digits then Inr (decimal_value w) else Inl ValueError)"
proof -
  obtain x xs where w: "w = x # xs" using assms(1) by (cases w) auto
  have x: "is_digit x" using assms(2) w by simp
  have f: "filter is_digit (x # xs) = w" using filter_digits [OF assms(2)] w by simp
  have "int_unsigned (x # xs) =
          (if length w \<le> int_max_str_digits then Some (decimal_value w) else None)"
    using x int_digits_digits [OF assms(2), of 0] w
    unfolding int_unsigned_def f by (simp add: decimal_value_def)
  then show ?thesis
    using strip_digits [OF assms] w digit_not_sign [OF x] by (simp add: py_int_def)
qed

lemma parse_shape:
  assumes s: "raw v = a @ CHR ''.'' # b @ CHR ''.'' # c @ r"
    and abc: "spec_component a" "spec_component b" "spec_component c"
    and r: "r = [] \<or> r = [newline]"
  shows "py_split CHR ''.'' (raw v) = [a, b, c @ r]"
    and "parse v =
           (if length a \<le> int_max_str_digits \<and> length b \<le> int_max_str_digits
               \<and> length c \<le> int_max_str_digits
            then Inr (decimal_value a, decimal_value b, decimal_value c)
            else Inl ValueError)"
proof -
  have nd: "CHR ''.'' \<notin> set a" "CHR ''.'' \<notin> set b" "CHR ''.'' \<notin> set (c @ r)"
    using abc component_digits digits_no_dot r newline_not_dot by auto
  show sp: "py_split CHR ''.'' (raw v) = [a, b, c @ r]"
    unfolding s using nd by (simp add: py_split_append py_split_no_sep del: set_append)
  have ia: "py_int a =
      (if length a \<le> int_max_str_digits then Inr (decimal_value a) else Inl ValueError)"
    using py_int_digits [of a "[]"] component_digits [OF abc(1)] by simp
  have ib: "py_int b =
      (if length b \<le> int_max_str_digits then Inr (decimal_value b) else Inl ValueError)"
    using py_int_digits [of b "[]"] component_digits [OF abc(2)] by simp
  have ic: "py_int (c @ r) =
      (if length c \<le> int_max_str_digits then Inr (decimal_value c) else Inl ValueError)"
    using py_int_digits [of c r] component_digits [OF abc(3)] r by simp
  show "parse v =
           (if length a \<le> int_max_str_digits \<and> length b \<le> int_max_str_digits
               \<and> length c \<le> int_max_str_digits
            then Inr (decimal_value a, decimal_value b, decimal_value c)
            else Inl ValueError)"
    unfolding parse_def sp using ia ib ic by simp
qed

lemma parse_valid:
  assumes "is_valid v"
  shows "length (py_split CHR ''.'' (raw v)) = 3
         \<and> parse v \<noteq> Inl InvalidSemverFormat
         \<and> (if \<forall>p \<in> set (py_split CHR ''.'' (raw v)).
                  length (filter is_digit p) \<le> int_max_str_digits
            then \<exists>a b c. parse v = Inr (a, b, c) \<and> 0 \<le> a \<and> 0 \<le> b \<and> 0 \<le> c
            else parse v = Inl ValueError)"
proof -
  from assms obtain a b c r where s: "raw v = a @ CHR ''.'' # b @ CHR ''.'' # c @ r"
    and abc: "spec_component a" "spec_component b" "spec_component c"
    and r: "r = [] \<or> r = [newline]"
    unfolding is_valid_def re_match_semver by blast
  note sh = parse_shape [OF s abc r]
  have f: "filter is_digit a = a" "filter is_digit b = b" "filter is_digit (c @ r) = c"
    using abc component_digits filter_digits filter_digits_newline [OF _ r] by blast+
  have within: "(\<forall>p \<in> set (py_split CHR ''.'' (raw v)).
                  length (filter is_digit p) \<le> int_max_str_digits)
      \<longleftrightarrow> length a \<le> int_max_str_digits \<and> length b \<le> int_max_str_digits
          \<and> length c \<le> int_max_str_digits"
    unfolding sh(1) using f by simp
  have nn: "0 \<le> decimal_value a" "0 \<le> decimal_value b" "0 \<le> decimal_value c"
    using abc component_digits decimal_value_nonneg by blast+
  have 1: "length (py_split CHR ''.'' (raw v)) = 3" using sh(1) by simp
  have 2: "parse v \<noteq> Inl InvalidSemverFormat" using sh(2) by simp
  show ?thesis
  proof (cases "length a \<le> int_max_str_digits \<and> length b \<le> int_max_str_digits
          \<and> length c \<le> int_max_str_digits")
    case True
    then have "parse v = Inr (decimal_value a, decimal_value b, decimal_value c)"
      using sh(2) by simp
    then have "\<exists>a b c. parse v = Inr (a, b, c) \<and> 0 \<le> a \<and> 0 \<le> b \<and> 0 \<le> c"
      using nn by blast
    then show ?thesis using 1 2 within True by presburger
  next
    case False
    then have "parse v = Inl ValueError" using sh(2) by simp
    then show ?thesis using 1 2 within False by presburger
  qed
qed

declare decimal.simps [simp del]

lemma of_char_digit_char: "d < 10 \<Longrightarrow> (of_char (digit_char d) :: nat) = 48 + d"
  by (simp add: digit_char_def)

lemma digit_char_0: "digit_char 0 = CHR ''0''"
proof -
  have "(of_char (digit_char 0) :: nat) = of_char CHR ''0''"
    by (simp add: digit_char_def)
  then show ?thesis by (simp only: of_char_eq_iff)
qed

lemma digit_char_is_digit: "d < 10 \<Longrightarrow> is_digit (digit_char d)"
  by (simp add: is_digit_def of_char_digit_char)

lemma digit_char_nonzero: "0 < d \<Longrightarrow> d < 10 \<Longrightarrow> in_range CHR ''1'' CHR ''9'' (digit_char d)"
  by (simp add: in_range_def of_char_digit_char)

lemma digit_value_digit_char: "d < 10 \<Longrightarrow> digit_value (digit_char d) = int d"
  by (simp add: digit_value_def of_char_digit_char)

lemma decimal_pos:
  "0 < n \<Longrightarrow> \<exists>x xs. decimal n = x # xs \<and> in_range CHR ''1'' CHR ''9'' x \<and> list_all is_digit xs"
proof (induction n rule: decimal.induct)
  case (1 n)
  show ?case
  proof (cases "n < 10")
    case True
    then show ?thesis using "1.prems" by (simp add: decimal.simps [of n] digit_char_nonzero)
  next
    case False
    then have "0 < n div 10" by simp
    from "1.IH" [OF False this] obtain x xs where
      "decimal (n div 10) = x # xs" "in_range CHR ''1'' CHR ''9'' x" "list_all is_digit xs" by blast
    then show ?thesis using False
      by (simp add: decimal.simps [of n] digit_char_is_digit)
  qed
qed

lemma spec_component_decimal: "spec_component (decimal n)"
proof (cases "n = 0")
  case True
  then show ?thesis by (simp add: decimal.simps [of 0] digit_char_0)
next
  case False
  then obtain x xs where "decimal n = x # xs" "in_range CHR ''1'' CHR ''9'' x" "list_all is_digit xs"
    using decimal_pos [of n] by auto
  then show ?thesis by simp
qed

lemma decimal_value_decimal: "decimal_value (decimal n) = int n"
proof (induction n rule: decimal.induct)
  case (1 n)
  show ?case
  proof (cases "n < 10")
    case True
    then show ?thesis by (simp add: decimal.simps [of n] decimal_value_def digit_value_digit_char)
  next
    case False
    have "decimal_value (decimal n) = 10 * decimal_value (decimal (n div 10)) + int (n mod 10)"
      using False by (simp add: decimal.simps [of n] decimal_value_def digit_value_digit_char)
    also have "\<dots> = 10 * int (n div 10) + int (n mod 10)"
      using "1.IH" [OF False] by simp
    also have "\<dots> = int n" by presburger 
    finally show ?thesis .
  qed
qed

lemma length_decimal: "0 < k \<Longrightarrow> length (decimal n) \<le> k \<longleftrightarrow> n < 10 ^ k"
proof (induction n arbitrary: k rule: decimal.induct)
  case (1 n)
  show ?case
  proof (cases "n < 10")
    case True
    have "(10::nat) ^ 1 \<le> 10 ^ k" using "1.prems" by (intro power_increasing) simp_all
    then have "n < 10 ^ k" using True by simp
    then show ?thesis using True "1.prems" by (simp add: decimal.simps [of n])
  next
    case False
    obtain j where k: "k = Suc j" using "1.prems" by (cases k) auto
    show ?thesis
    proof (cases "j = 0")
      case True
      then show ?thesis using False k spec_component_decimal [of "n div 10"]
        by (cases "decimal (n div 10)") (simp_all add: decimal.simps [of n])
    next
      case j: False
      then have "length (decimal (n div 10)) \<le> j \<longleftrightarrow> n div 10 < 10 ^ j"
        using "1.IH" [OF False, of j] by simp
      moreover have "n div 10 < 10 ^ j \<longleftrightarrow> n < 10 ^ Suc j"
        by (simp add: div_less_iff_less_mult mult.commute)
      ultimately show ?thesis using False k by (simp add: decimal.simps [of n])
    qed
  qed
qed

lemma readlines_no_newline: "s \<noteq> [] \<Longrightarrow> newline \<notin> set s \<Longrightarrow> readlines s = [s]"
proof (induction s)
  case Nil
  then show ?case by simp
next
  case (Cons x xs)
  then show ?case by (cases xs) auto
qed

lemma readlines_final_newline: "newline \<notin> set s \<Longrightarrow> readlines (s @ [newline]) = [s @ [newline]]"
  by (induction s) auto

lemma readlines_valid:
  assumes "is_valid v"
  shows "readlines (raw v) = [raw v]"
proof -
  from assms obtain a b c r where s: "raw v = a @ CHR ''.'' # b @ CHR ''.'' # c @ r"
    and abc: "spec_component a" "spec_component b" "spec_component c"
    and r: "r = [] \<or> r = [newline]"
    unfolding is_valid_def re_match_semver by blast
  let ?t = "a @ CHR ''.'' # b @ CHR ''.'' # c"
  have nn: "newline \<notin> set ?t"
    using abc component_digits digits_no_newline newline_not_dot by auto
  from r show ?thesis
  proof
    assume "r = []"
    then show ?thesis using s readlines_no_newline [OF _ nn] by simp
  next
    assume "r = [newline]"
    then show ?thesis using s readlines_final_newline [OF nn] by simp
  qed
qed

lemma overwrite_invalid:
  "\<not> is_valid new_version \<Longrightarrow> overwrite_version new_version f = (Inl InvalidSemverFormat, f)"
  by (simp add: overwrite_version_def)

lemma overwrite_missing:
  "is_valid new_version \<Longrightarrow>
     overwrite_version new_version None = (Inl (PathNotFound ''sem-ver''), None)"
  by (simp add: overwrite_version_def semver_file_def get_rel_file_path_def)

lemma overwrite_present:
  "is_valid new_version \<Longrightarrow>
     overwrite_version new_version (Some old) = (Inr (), Some (raw new_version))"
  by (simp add: overwrite_version_def semver_file_def get_rel_file_path_def)

lemma read_back:
  assumes "is_valid new_version"
  shows "get_current_sem_ver (Some (raw new_version)) = Inr \<lparr>raw = raw new_version\<rparr>"
  using readlines_valid [OF assms]
  by (simp add: get_current_sem_ver_def semver_file_def get_rel_file_path_def)

text \<open>
  C2, as claimed: every text that is not, as a whole, three components separated
  by dots is rejected. The end anchor \<open>$\<close> of the pattern also matches just
  before a final newline, so the text of 1.2.3 followed by a newline is accepted by
  \<open>is_valid\<close>, \<open>parse\<close> returns its components, and a run with that text
  as its tag goes through and writes it to the file.
\<close>

theorem trailing_newline_counterexample:
  "\<not> spec_semver ''1.2.3\<newline>'' \<and> is_valid \<lparr>raw = ''1.2.3\<newline>''\<rparr>
   \<and> parse \<lparr>raw = ''1.2.3\<newline>''\<rparr> = Inr (1, 2, 3)
   \<and> main \<lparr>parsed_args = Some (''1.2.3\<newline>'', ''patch''), version_txt = Some ''1.2.2'',
        dotenv_exists = True, dotenv_importable = True,
        DOCKERHUB_ID = Some ''user'', DOCKERHUB_PW = Some ''secret'',
        dockerfile_exists = True, project_root_exists = True,
        login_returncode = 0, build_returncode = 0, image_ls_returncode = 0,
        push_returncode = 0\<rparr> = (Inr (), Some ''1.2.3\<newline>'')"
  by code_simp

text \<open>
  C2, amended: \<open>is_valid\<close> accepts exactly the texts that are three components
  separated by dots, each \<open>0\<close> or a sequence of digits that starts with a non-zero
  digit, optionally followed by one newline. Every other text is rejected (and
  \<open>main\<close> then exits): a leading zero, a fourth component, white space before
  or after other than that one newline, a missing component, a sign.
\<close>

theorem is_valid_spec:
  "is_valid v \<longleftrightarrow>
     spec_semver (raw v)
     \<or> (raw v \<noteq> [] \<and> last (raw v) = newline \<and> spec_semver (butlast (raw v)))"
proof -
  have "(\<exists>t. raw v = t @ [newline] \<and> spec_semver t)
          \<longleftrightarrow> (raw v \<noteq> [] \<and> last (raw v) = newline \<and> spec_semver (butlast (raw v)))"
    (is "?A \<longleftrightarrow> ?B")
  proof
    assume ?A
    then show ?B by auto
  next
    assume b: ?B
    then have "raw v = butlast (raw v) @ [newline]"
      using append_butlast_last_id [of "raw v"] by simp
    with b show ?A by blast
  qed
  then show ?thesis using is_valid_iff [of v] by simp
qed

theorem is_valid_spec_witness:
  "\<not> is_valid \<lparr>raw = ''01.2.3''\<rparr> \<and> \<not> is_valid \<lparr>raw = ''1.2.3.4''\<rparr>
   \<and> \<not> is_valid \<lparr>raw = '' 1.2.3''\<rparr> \<and> \<not> is_valid \<lparr>raw = ''1.2.3 ''\<rparr>
   \<and> \<not> is_valid \<lparr>raw = ''1.2''\<rparr> \<and> \<not> is_valid \<lparr>raw = ''1.2.-3''\<rparr>
   \<and> \<not> is_valid \<lparr>raw = ''1.2.3\<newline>\<newline>''\<rparr>
   \<and> is_valid \<lparr>raw = ''1.2.3''\<rparr> \<and> is_valid \<lparr>raw = ''1.2.3\<newline>''\<rparr>"
proof -
  have r: "\<And>s. raw \<lparr>raw = s\<rparr> = s" by simp
  have a: "\<not> spec_semver ''01.2.3''" "\<not> spec_semver (butlast ''01.2.3'')"
    "\<not> spec_semver ''1.2.3.4''" "\<not> spec_semver (butlast ''1.2.3.4'')"
    "\<not> spec_semver '' 1.2.3''" "\<not> spec_semver (butlast '' 1.2.3'')"
    "\<not> spec_semver ''1.2.3 ''" "last ''1.2.3 '' \<noteq> newline"
    "\<not> spec_semver ''1.2''" "\<not> spec_semver (butlast ''1.2'')"
    "\<not> spec_semver ''1.2.-3''" "\<not> spec_semver (butlast ''1.2.-3'')"
    "\<not> spec_semver ''1.2.3\<newline>\<newline>''" "\<not> spec_semver (butlast ''1.2.3\<newline>\<newline>'')"
    by code_simp+
  have b: "spec_semver ''1.2.3''" "''1.2.3\<newline>'' \<noteq> []" "last ''1.2.3\<newline>'' = newline"
    "spec_semver (butlast ''1.2.3\<newline>'')"
    by code_simp+
  have 1: "\<not> is_valid \<lparr>raw = ''01.2.3''\<rparr>"
    using is_valid_spec [of "\<lparr>raw = ''01.2.3''\<rparr>"] a unfolding r by blast
  have 2: "\<not> is_valid \<lparr>raw = ''1.2.3.4''\<rparr>"
    using is_valid_spec [of "\<lparr>raw = ''1.2.3.4''\<rparr>"] a unfolding r by blast
  have 3: "\<not> is_valid \<lparr>raw = '' 1.2.3''\<rparr>"
    using is_valid_spec [of "\<lparr>raw = '' 1.2.3''\<rparr>"] a unfolding r by blast
  have 4: "\<not> is_valid \<lparr>raw = ''1.2.3 ''\<rparr>"
    using is_valid_spec [of "\<lparr>raw = ''1.2.3 ''\<rparr>"] a unfolding r by blast
  have 5: "\<not> is_valid \<lparr>raw = ''1.2''\<rparr>"
    using is_valid_spec [of "\<lparr>raw = ''1.2''\<rparr>"] a unfolding r by blast
  have 6: "\<not> is_valid \<lparr>raw = ''1.2.-3''\<rparr>"
    using is_valid_spec [of "\<lparr>raw = ''1.2.-3''\<rparr>"] a unfolding r by blast
  have 7: "\<not> is_valid \<lparr>raw = ''1.2.3\<newline>\<newline>''\<rparr>"
    using is_valid_spec [of "\<lparr>raw = ''1.2.3\<newline>\<newline>''\<rparr>"] a unfolding r by blast
  have 8: "is_valid \<lparr>raw = ''1.2.3''\<rparr>"
    using is_valid_spec [of "\<lparr>raw = ''1.2.3''\<rparr>"] b unfolding r by blast
  have 9: "is_valid \<lparr>raw = ''1.2.3\<newline>''\<rparr>"
    using is_valid_spec [of "\<lparr>raw = ''1.2.3\<newline>''\<rparr>"] b unfolding r by blast
  show ?thesis using 1 2 3 4 5 6 7 8 9 by blast
qed

text \<open>
  C10, as claimed: for every text accepted by \<open>is_valid\<close>, \<open>parse\<close> succeeds and
  returns three integers. The pattern puts no bound on the number of digits, but
  \<open>int\<close> does: a version whose major component is 4301 times the digit 1 is
  accepted by \<open>is_valid\<close>, and \<open>parse\<close> ends with the \<open>ValueError\<close> of the first
  conversion.
\<close>

theorem long_component_counterexample:
  "is_valid \<lparr>raw = replicate 4301 CHR ''1'' @ ''.0.0''\<rparr>
   \<and> parse \<lparr>raw = replicate 4301 CHR ''1'' @ ''.0.0''\<rparr> = Inl ValueError"
proof -
  let ?a = "replicate 4301 CHR ''1''"
  let ?v = "\<lparr>raw = ?a @ ''.0.0''\<rparr>"
  have s: "raw ?v = ?a @ CHR ''.'' # ''0'' @ CHR ''.'' # ''0'' @ []" by simp
  have "?a = CHR ''1'' # replicate 4300 CHR ''1''"
    using replicate_Suc [of 4300 "CHR ''1''"] by simp
  moreover have "in_range CHR ''1'' CHR ''9'' CHR ''1''" by (simp add: in_range_def)
  moreover have "list_all is_digit (replicate 4300 CHR ''1'')"
    by (simp add: list_all_iff is_digit_def)
  ultimately have a: "spec_component ?a" by simp
  have z: "spec_component ''0''" by simp
  have "is_valid ?v"
    unfolding is_valid_def re_match_semver using s a z by blast
  moreover have "parse ?v = Inl ValueError"
    using parse_shape(2) [OF s a z z] by (simp add: int_max_str_digits_def)
  ultimately show ?thesis by simp
qed

text \<open>
  C10, amended: for every text accepted by \<open>is_valid\<close>, the split at the dots has
  three parts, so the exit of \<open>parse\<close> ("invalid sem-ver format") is never taken.
  When no component has more than 4300 digits, every conversion succeeds and
  \<open>parse\<close> returns three integers, none of them negative; when one has more,
  \<open>parse\<close> ends with \<open>ValueError\<close>.
\<close>

theorem valid_version_parses:
  assumes "is_valid v"
  shows "length (py_split CHR ''.'' (raw v)) = 3
         \<and> parse v \<noteq> Inl InvalidSemverFormat
         \<and> (if \<forall>p \<in> set (py_split CHR ''.'' (raw v)).
                  length (filter is_digit p) \<le> int_max_str_digits
            then \<exists>a b c. parse v = Inr (a, b, c) \<and> 0 \<le> a \<and> 0 \<le> b \<and> 0 \<le> c
            else parse v = Inl ValueError)"
  using assms by (rule parse_valid)

theorem valid_version_parses_witness:
  "is_valid \<lparr>raw = ''1.2.3''\<rparr> \<and> length (py_split CHR ''.'' (raw \<lparr>raw = ''1.2.3''\<rparr>)) = 3
   \<and> list_all (\<lambda>p. length (filter is_digit p) \<le> int_max_str_digits)
        (py_split CHR ''.'' (raw \<lparr>raw = ''1.2.3''\<rparr>))
   \<and> parse \<lparr>raw = ''1.2.3''\<rparr> = Inr (1, 2, 3)
   \<and> parse \<lparr>raw = ''1.2.3''\<rparr> \<noteq> Inl InvalidSemverFormat"
proof -
  have v: "is_valid \<lparr>raw = ''1.2.3''\<rparr>" by code_simp
  have p: "parse \<lparr>raw = ''1.2.3''\<rparr> = Inr (1, 2, 3)" by code_simp
  have l: "list_all (\<lambda>p. length (filter is_digit p) \<le> int_max_str_digits)
        (py_split CHR ''.'' (raw \<lparr>raw = ''1.2.3''\<rparr>))" by code_simp
  note t = valid_version_parses [OF v]
  from t have "length (py_split CHR ''.'' (raw \<lparr>raw = ''1.2.3''\<rparr>)) = 3" by (rule conjunct1)
  moreover from t have "parse \<lparr>raw = ''1.2.3''\<rparr> \<noteq> Inl InvalidSemverFormat" by blast
  ultimately show ?thesis using v p l by blast
qed

text \<open>
  C4, as claimed: a version with a component above the platform's integer limit is
  rejected. Python integers have no such limit and the script checks none: the
  version with major component \<open>2 ^ 64\<close> is accepted and parsed.
\<close>

theorem beyond_integer_limit_counterexample:
  "(2 :: int) ^ 64 - 1 < 18446744073709551616
   \<and> is_valid \<lparr>raw = ''18446744073709551616.0.0''\<rparr>
   \<and> parse \<lparr>raw = ''18446744073709551616.0.0''\<rparr> = Inr (18446744073709551616, 0, 0)"
proof -
  have "is_valid \<lparr>raw = ''18446744073709551616.0.0''\<rparr>" by code_simp
  moreover have "parse \<lparr>raw = ''18446744073709551616.0.0''\<rparr> = Inr (18446744073709551616, 0, 0)"
    by code_simp
  ultimately show ?thesis by simp
qed

text \<open>
  C4, amended: the value of a component is not bounded by a machine integer. For
  all natural numbers \<open>a\<close>, \<open>b\<close> and \<open>c\<close>, the text \<open>a.b.c\<close> written in
  base ten is accepted by \<open>is_valid\<close>. When each number is below \<open>10 ^ 4300\<close>
  (at most 4300 digits), \<open>parse\<close> returns exactly \<open>(a, b, c)\<close>; otherwise
  \<open>parse\<close> ends with the \<open>ValueError\<close> of \<open>int\<close>, not with a diagnostic of the
  script.
\<close>

theorem no_magnitude_bound:
  "is_valid \<lparr>raw = render a b c\<rparr>
   \<and> parse \<lparr>raw = render a b c\<rparr> =
       (if a < 10 ^ int_max_str_digits \<and> b < 10 ^ int_max_str_digits
           \<and> c < 10 ^ int_max_str_digits
        then Inr (int a, int b, int c) else Inl ValueError)"
proof -
  let ?v = "\<lparr>raw = render a b c\<rparr>"
  have s: "raw ?v = decimal a @ CHR ''.'' # decimal b @ CHR ''.'' # decimal c @ []"
    by (simp add: render_def)
  have k: "0 < int_max_str_digits" by (simp add: int_max_str_digits_def)
  have r: "([] :: string) = [] \<or> ([] :: string) = [newline]" by simp
  have "is_valid ?v"
    unfolding is_valid_def re_match_semver using s spec_component_decimal by blast
  moreover have "parse ?v =
       (if a < 10 ^ int_max_str_digits \<and> b < 10 ^ int_max_str_digits
           \<and> c < 10 ^ int_max_str_digits
        then Inr (int a, int b, int c) else Inl ValueError)"
    using parse_shape(2) [OF s spec_component_decimal spec_component_decimal spec_component_decimal r]
    by (simp only: decimal_value_decimal length_decimal [OF k])
  ultimately show ?thesis by simp
qed

theorem no_magnitude_bound_witness:
  "(2 :: nat) ^ 64 < 10 ^ int_max_str_digits
   \<and> is_valid \<lparr>raw = render (2 ^ 64) 0 0\<rparr>
   \<and> parse \<lparr>raw = render (2 ^ 64) 0 0\<rparr> = Inr (2 ^ 64, 0, 0)"
proof -
  have a: "(2 :: nat) ^ 64 < 10 ^ int_max_str_digits"
  proof -
    have "(2 :: nat) ^ 64 < 10 ^ 64" by (rule power_strict_mono) simp_all
    also have "(10 :: nat) ^ 64 \<le> 10 ^ int_max_str_digits"
      by (rule power_increasing) (simp_all add: int_max_str_digits_def)
    finally show ?thesis .
  qed
  have z: "(0 :: nat) < 10 ^ int_max_str_digits" by simp
  show ?thesis using no_magnitude_bound [of "2 ^ 64" 0 0] a z by simp
qed

text \<open>
  C9. \<open>overwrite_version\<close> checks the new version before it touches the file:
  an invalid version leaves the file as it was and ends the run; the file changes
  only to the text of a version that \<open>is_valid\<close> accepts; and after a successful
  write, \<open>get_current_sem_ver\<close> reads that same text back as a valid version.
\<close>

theorem overwrite_version_validates:
  "(\<not> is_valid new_version \<longrightarrow> overwrite_version new_version f = (Inl InvalidSemverFormat, f))
   \<and> (snd (overwrite_version new_version f) \<noteq> f \<longrightarrow>
        is_valid new_version \<and> snd (overwrite_version new_version f) = Some (raw new_version))
   \<and> (fst (overwrite_version new_version f) = Inr () \<longrightarrow>
        is_valid new_version \<and> snd (overwrite_version new_version f) = Some (raw new_version)
        \<and> (\<exists>cur. get_current_sem_ver (snd (overwrite_version new_version f)) = Inr cur
              \<and> raw cur = raw new_version \<and> is_valid cur))"
proof (cases "is_valid new_version")
  case False
  then show ?thesis by (simp add: overwrite_invalid)
next
  case True
  have v: "is_valid \<lparr>raw = raw new_version\<rparr>" using True by (simp add: is_valid_def)
  show ?thesis
  proof (cases f)
    case None
    then show ?thesis using True by (simp add: overwrite_missing)
  next
    case (Some old)
    then show ?thesis using True v read_back [OF True] by (simp add: overwrite_present)
  qed
qed

theorem overwrite_version_validates_witness:
  "is_valid \<lparr>raw = ''1.0.1''\<rparr>
   \<and> overwrite_version \<lparr>raw = ''1.0.1''\<rparr> (Some ''1.0.0'') = (Inr (), Some ''1.0.1'')
   \<and> \<not> is_valid \<lparr>raw = ''1.0''\<rparr>
   \<and> overwrite_version \<lparr>raw = ''1.0''\<rparr> (Some ''1.0.0'') = (Inl InvalidSemverFormat, Some ''1.0.0'')"
proof -
  have v: "is_valid \<lparr>raw = ''1.0.1''\<rparr>" by code_simp
  have n: "\<not> is_valid \<lparr>raw = ''1.0''\<rparr>" by code_simp
  have ok: "fst (overwrite_version \<lparr>raw = ''1.0.1''\<rparr> (Some ''1.0.0'')) = Inr ()"
    using v by (simp add: overwrite_present)
  note t = overwrite_version_validates [of "\<lparr>raw = ''1.0.1''\<rparr>" "Some ''1.0.0''"]
  from t ok
  have "snd (overwrite_version \<lparr>raw = ''1.0.1''\<rparr> (Some ''1.0.0'')) = Some (raw \<lparr>raw = ''1.0.1''\<rparr>)"
    by blast
  then have 1: "snd (overwrite_version \<lparr>raw = ''1.0.1''\<rparr> (Some ''1.0.0'')) = Some ''1.0.1''"
    by simp
  have 2: "overwrite_version \<lparr>raw = ''1.0.1''\<rparr> (Some ''1.0.0'') = (Inr (), Some ''1.0.1'')"
    using ok 1 by (simp add: prod_eq_iff)
  have 3: "overwrite_version \<lparr>raw = ''1.0''\<rparr> (Some ''1.0.0'') = (Inl InvalidSemverFormat, Some ''1.0.0'')"
    using overwrite_version_validates [of "\<lparr>raw = ''1.0''\<rparr>" "Some ''1.0.0''"] n by blast
  show ?thesis using 2 3 v n by blast
qed

end
